theory Spec2Isabelle
  imports Main "HOL-Library.Char_ord" "HOL-Library.List_Lexorder" "HOL-Library.Sublist"
begin

section \<open>GeoStore: ingestion dispatcher and federated store coordinator\<close>

text \<open>
  A shallow embedding of \<^verbatim>\<open>GeoStore::GeoStoreImpl\<close> (core/src/index/GeoStore.cpp).
  The class owns one \<^verbatim>\<open>std::map<std::string, std::unique_ptr<ElementStore>>\<close> and
  orchestrates collaborators that live in other files: element stores, format parsers
  with their intake visitors, the cancellation token and the string helper
  \<^verbatim>\<open>endsWith\<close>. Data that the class only passes on (elements, quad keys, LOD ranges,
  bounding boxes, style providers, the element visitor) stays polymorphic.
\<close>

subsection \<open>Format detection\<close>

text \<open>
  Modelled from the spec: the enumeration \<^verbatim>\<open>FormatType\<close> is declared outside
  GeoStore.cpp; the specification gives it as the closed set of these four formats.
\<close>

datatype FormatType = Shape | Xml | Pbf | Json

text \<open>
  Modelled from the spec: \<^verbatim>\<open>utymap::utils::endsWith\<close> is declared outside
  GeoStore.cpp. The specification calls format detection a function of the suffix of the
  path, compared as stored, so \<open>endsWith str ending\<close> holds when the last
  \<open>length ending\<close> characters of \<open>str\<close> are \<open>ending\<close>.
\<close>

definition endsWith :: "string \<Rightarrow> string \<Rightarrow> bool" where
  "endsWith str ending =
     (length ending \<le> length str \<and> drop (length str - length ending) str = ending)"

definition getFormatTypeFromPath :: "string \<Rightarrow> FormatType" where
  "getFormatTypeFromPath path =
     (if endsWith path ''pbf'' then Pbf
      else if endsWith path ''xml'' then Xml
      else if endsWith path ''json'' then Json
      else Shape)"

subsection \<open>Collaborators\<close>

text \<open>
  Two ways in which a call can fail inside GeoStore.cpp itself:
  \<open>UnsupportedFormat\<close> is \<^verbatim>\<open>throw std::domain_error("Not supported.")\<close> of the
  dispatcher; \<open>NullStore\<close> is the dereference of an empty \<^verbatim>\<open>unique_ptr\<close>, which is
  what \<^verbatim>\<open>storeMap_[storeKey]\<close> yields for a key that was never registered.
  Exceptions raised inside a parser or a store are not modelled: those collaborators are
  total functions here.
\<close>

datatype error = UnsupportedFormat | NullStore

text \<open>
  The cancellation token is a flag shared with the caller and polled with
  \<^verbatim>\<open>isCancelled()\<close>. Within one call the polls are numbered from 0 and a token is
  the answer to each poll, so that a flag raised at any moment of the call (also by
  another thread) is one particular token.
\<close>

type_synonym CancellationToken = "nat \<Rightarrow> bool"

text \<open>The member functions of \<^verbatim>\<open>ElementStore\<close> that the coordinator calls, as events.\<close>

datatype ('e, 'q, 'r, 'b, 'p) call =
    StoreRange 'e 'r 'p
  | StoreTile 'e 'q 'p
  | StoreBBox 'e 'b 'r 'p
  | EraseTile 'q
  | EraseBBox 'b 'r
  | HasData 'q
  | SearchTerms string string string 'b 'r
  | SearchTile 'q

text \<open>
  \<^verbatim>\<open>ElementStore\<close> is an abstract class declared outside GeoStore.cpp; its interface
  is a parameter of the model. A store is a state of type \<open>'s\<close>, and the record below is
  the table of its member functions: the three \<^verbatim>\<open>store\<close> overloads return whether
  the element was kept, the two \<^verbatim>\<open>erase\<close> overloads return nothing,
  \<^verbatim>\<open>hasData\<close> is a query, and the two \<^verbatim>\<open>search\<close> overloads feed the visitor
  \<open>'v\<close>. Stores of different classes are states of one type \<open>'s\<close> that carries the class.
\<close>

record ('s, 'e, 'q, 'r, 'b, 'p, 'v) ElementStore =
  es_store_range :: "'e \<Rightarrow> 'r \<Rightarrow> 'p \<Rightarrow> 's \<Rightarrow> bool \<times> 's"
  es_store_tile :: "'e \<Rightarrow> 'q \<Rightarrow> 'p \<Rightarrow> 's \<Rightarrow> bool \<times> 's"
  es_store_bbox :: "'e \<Rightarrow> 'b \<Rightarrow> 'r \<Rightarrow> 'p \<Rightarrow> 's \<Rightarrow> bool \<times> 's"
  es_erase_tile :: "'q \<Rightarrow> 's \<Rightarrow> 's"
  es_erase_bbox :: "'b \<Rightarrow> 'r \<Rightarrow> 's \<Rightarrow> 's"
  es_hasData :: "'s \<Rightarrow> 'q \<Rightarrow> bool"
  es_search_terms :: "string \<Rightarrow> string \<Rightarrow> string \<Rightarrow> 'b \<Rightarrow> 'r \<Rightarrow> 'v \<Rightarrow> CancellationToken \<Rightarrow> 's \<Rightarrow> 'v \<times> 's"
  es_search_tile :: "'q \<Rightarrow> 'v \<Rightarrow> CancellationToken \<Rightarrow> 's \<Rightarrow> 'v \<times> 's"

text \<open>
  The build and the parsers: \<open>PBF_SUPPORTED_ENABLED\<close> is the preprocessor flag,
  \<open>parse fmt path\<close> the elements that the parser of format \<open>fmt\<close> decodes from the file
  at \<open>path\<close>, in emission order, and \<open>emptyBBox\<close>, \<open>expand\<close> the bounding box
  that the intake visitor starts from and how one element enlarges it.
\<close>

record ('e, 'b) Formats =
  PBF_SUPPORTED_ENABLED :: bool
  parse :: "FormatType \<Rightarrow> string \<Rightarrow> 'e list"
  emptyBBox :: 'b
  expand :: "'b \<Rightarrow> 'e \<Rightarrow> 'b"

subsection \<open>The store map\<close>

text \<open>
  \<^verbatim>\<open>storeMap_\<close> is an ordered map with unique keys: an association list in iteration
  order. A slot holds \<open>None\<close> for an empty \<^verbatim>\<open>unique_ptr\<close>. \<open>emplace\<close> walks the
  keys the way the ordered map compares them and inserts only when no equivalent key is
  found; \<^verbatim>\<open>operator[]\<close> emplaces an empty pointer and yields the slot.
\<close>

type_synonym 's storeMap = "(string \<times> 's option) list"

fun emplace :: "string \<Rightarrow> 'a \<Rightarrow> (string \<times> 'a) list \<Rightarrow> (string \<times> 'a) list" where
  "emplace k v [] = [(k, v)]"
| "emplace k v ((k', v') # m) =
     (if k < k' then (k, v) # (k', v') # m
      else if k' < k then (k', v') # emplace k v m
      else (k', v') # m)"

definition subscript :: "string \<Rightarrow> 's storeMap \<Rightarrow> 's storeMap" where
  "subscript storeKey m = emplace storeKey None m"

definition slot_of :: "string \<Rightarrow> 's storeMap \<Rightarrow> 's option" where
  "slot_of storeKey m = (case map_of m storeKey of None \<Rightarrow> None | Some p \<Rightarrow> p)"

definition assign :: "string \<Rightarrow> 's option \<Rightarrow> 's storeMap \<Rightarrow> 's storeMap" where
  "assign storeKey p m = map (\<lambda>(k, p'). if k = storeKey then (k, p) else (k, p')) m"

definition ordered :: "(string \<times> 'a) list \<Rightarrow> bool" where
  "ordered m = sorted_wrt (<) (map fst m)"

definition registerStore :: "string \<Rightarrow> 's option \<Rightarrow> 's storeMap \<Rightarrow> 's storeMap" where
  "registerStore storeKey store m = emplace storeKey store m"

text \<open>
  \<open>ordered\<close> is the invariant of the ordered map (strictly ascending keys) and
  \<open>populated\<close> says that no slot holds an empty pointer. \<open>registerAll\<close> is a caller
  that registers the given stores one after the other.
\<close>

definition populated :: "'s storeMap \<Rightarrow> bool" where
  "populated m = list_all (\<lambda>x. snd x \<noteq> None) m"


subsection \<open>The ingestion dispatcher\<close>

text \<open>
  Modelled from the spec: the parsers and the intake visitors (\<^verbatim>\<open>ShapeDataVisitor\<close>,
  \<^verbatim>\<open>OsmDataVisitor\<close>) are declared outside GeoStore.cpp. The specification has the
  parser hand each decoded element once, in emission order, to the intake adapter, which
  polls the token between elements, stops without throwing once it reports cancelled,
  offers every other element to the callback, and returns the aggregate bounding box of
  everything that was offered to the callback. \<open>visit\<close> is \<^verbatim>\<open>parser.parse\<close> followed
  by \<^verbatim>\<open>visitor.complete()\<close>: \<open>n\<close> counts the polls of the token made so far and is
  returned next to the bounding box. The callback acts on a state \<open>'w\<close> that the
  dispatcher changes in no other way.
\<close>

fun visit :: "('e, 'b) Formats \<Rightarrow> CancellationToken \<Rightarrow> ('e \<Rightarrow> 'w \<Rightarrow> error + bool \<times> 'w) \<Rightarrow>
    'e list \<Rightarrow> nat \<Rightarrow> 'b \<Rightarrow> 'w \<Rightarrow> 'w \<times> (error + 'b \<times> nat)" where
  "visit F cancelToken functor [] n bbox w = (w, Inr (bbox, n))"
| "visit F cancelToken functor (element # es) n bbox w =
     (if cancelToken n then (w, Inr (bbox, Suc n))
      else case functor element w of
             Inl err \<Rightarrow> (w, Inl err)
           | Inr (kept, w') \<Rightarrow> visit F cancelToken functor es (Suc n) (expand F bbox element) w')"

text \<open>
  \<^verbatim>\<open>add(path, cancelToken, functor)\<close>: the switch on the detected format. The case for
  Pbf exists only under \<^verbatim>\<open>PBF_SUPPORTED_ENABLED\<close>; without it Pbf reaches
  \<^verbatim>\<open>default: throw\<close>.
\<close>

definition add_functor :: "('e, 'b) Formats \<Rightarrow> string \<Rightarrow> CancellationToken \<Rightarrow>
    ('e \<Rightarrow> 'w \<Rightarrow> error + bool \<times> 'w) \<Rightarrow> 'w \<Rightarrow> 'w \<times> (error + 'b \<times> nat)" where
  "add_functor F path cancelToken functor w =
     (case getFormatTypeFromPath path of
        Shape \<Rightarrow> visit F cancelToken functor (parse F Shape path) 0 (emptyBBox F) w
      | Xml \<Rightarrow> visit F cancelToken functor (parse F Xml path) 0 (emptyBBox F) w
      | Pbf \<Rightarrow>
          if PBF_SUPPORTED_ENABLED F
          then visit F cancelToken functor (parse F Pbf path) 0 (emptyBBox F) w
          else (w, Inl UnsupportedFormat)
      | Json \<Rightarrow> visit F cancelToken functor (parse F Json path) 0 (emptyBBox F) w)"

subsection \<open>Ingestion entry points\<close>

text \<open>
  The three lambdas passed to the dispatcher capture the slot \<^verbatim>\<open>elementStore\<close> by
  reference. Their state is the slot together with the calls made on it so far;
  \<open>storeFunctor mk op\<close> dereferences the slot, applies the store operation \<open>op\<close> and
  records the call \<open>mk element\<close>.
\<close>

type_synonym ('s, 'e, 'q, 'r, 'b, 'p) slotState = "'s option \<times> ('e, 'q, 'r, 'b, 'p) call list"

definition storeFunctor :: "('e \<Rightarrow> ('e, 'q, 'r, 'b, 'p) call) \<Rightarrow> ('e \<Rightarrow> 's \<Rightarrow> bool \<times> 's) \<Rightarrow>
    'e \<Rightarrow> ('s, 'e, 'q, 'r, 'b, 'p) slotState \<Rightarrow> error + bool \<times> ('s, 'e, 'q, 'r, 'b, 'p) slotState" where
  "storeFunctor mk op element w =
     (case fst w of
        None \<Rightarrow> Inl NullStore
      | Some s \<Rightarrow> (case op element s of (kept, s') \<Rightarrow> Inr (kept, (Some s', snd w @ [mk element]))))"

definition quadKeyFunctor :: "('s, 'e, 'q, 'r, 'b, 'p, 'v) ElementStore \<Rightarrow> 'q \<Rightarrow> 'p \<Rightarrow>
    'e \<Rightarrow> ('s, 'e, 'q, 'r, 'b, 'p) slotState \<Rightarrow> error + bool \<times> ('s, 'e, 'q, 'r, 'b, 'p) slotState" where
  "quadKeyFunctor S quadKey styleProvider =
     storeFunctor (\<lambda>element. StoreTile element quadKey styleProvider)
       (\<lambda>element. es_store_tile S element quadKey styleProvider)"

definition rangeFunctor :: "('s, 'e, 'q, 'r, 'b, 'p, 'v) ElementStore \<Rightarrow> 'r \<Rightarrow> 'p \<Rightarrow>
    'e \<Rightarrow> ('s, 'e, 'q, 'r, 'b, 'p) slotState \<Rightarrow> error + bool \<times> ('s, 'e, 'q, 'r, 'b, 'p) slotState" where
  "rangeFunctor S lodRange styleProvider =
     storeFunctor (\<lambda>element. StoreRange element lodRange styleProvider)
       (\<lambda>element. es_store_range S element lodRange styleProvider)"

definition bboxFunctor :: "('s, 'e, 'q, 'r, 'b, 'p, 'v) ElementStore \<Rightarrow> 'b \<Rightarrow> 'r \<Rightarrow> 'p \<Rightarrow>
    'e \<Rightarrow> ('s, 'e, 'q, 'r, 'b, 'p) slotState \<Rightarrow> error + bool \<times> ('s, 'e, 'q, 'r, 'b, 'p) slotState" where
  "bboxFunctor S bbox lodRange styleProvider =
     storeFunctor (\<lambda>element. StoreBBox element bbox lodRange styleProvider)
       (\<lambda>element. es_store_bbox S element bbox lodRange styleProvider)"

text \<open>
  Every entry point returns the store map after the call, the calls made on stores
  during the call, each with the key of the store that received it, and the outcome.
\<close>

definition add_element :: "('s, 'e, 'q, 'r, 'b, 'p, 'v) ElementStore \<Rightarrow> string \<Rightarrow> 'e \<Rightarrow> 'r \<Rightarrow> 'p \<Rightarrow>
    CancellationToken \<Rightarrow> 's storeMap \<Rightarrow>
    's storeMap \<times> (string \<times> ('e, 'q, 'r, 'b, 'p) call) list \<times> (error + unit)" where
  "add_element S storeKey element lodRange styleProvider cancelToken m =
     (let m1 = subscript storeKey m in
      case slot_of storeKey m1 of
        None \<Rightarrow> (m1, [], Inl NullStore)
      | Some s \<Rightarrow>
          (case es_store_range S element lodRange styleProvider s of
             (kept, s') \<Rightarrow>
               (assign storeKey (Some s') m1,
                [(storeKey, StoreRange element lodRange styleProvider)], Inr ())))"

definition add_quadKey :: "('s, 'e, 'q, 'r, 'b, 'p, 'v) ElementStore \<Rightarrow> ('e, 'b) Formats \<Rightarrow>
    string \<Rightarrow> string \<Rightarrow> 'q \<Rightarrow> 'p \<Rightarrow> CancellationToken \<Rightarrow> 's storeMap \<Rightarrow>
    's storeMap \<times> (string \<times> ('e, 'q, 'r, 'b, 'p) call) list \<times> (error + unit)" where
  "add_quadKey S F storeKey path quadKey styleProvider cancelToken m =
     (let m1 = subscript storeKey m in
      case add_functor F path cancelToken (quadKeyFunctor S quadKey styleProvider)
             (slot_of storeKey m1, []) of
        ((p, calls), Inl err) \<Rightarrow> (assign storeKey p m1, map (Pair storeKey) calls, Inl err)
      | ((p, calls), Inr (parsed, n)) \<Rightarrow>
          if cancelToken n then
            (case p of
               None \<Rightarrow> (assign storeKey p m1, map (Pair storeKey) calls, Inl NullStore)
             | Some s \<Rightarrow>
                 (assign storeKey (Some (es_erase_tile S quadKey s)) m1,
                  map (Pair storeKey) (calls @ [EraseTile quadKey]), Inr ()))
          else (assign storeKey p m1, map (Pair storeKey) calls, Inr ()))"

definition add_range :: "('s, 'e, 'q, 'r, 'b, 'p, 'v) ElementStore \<Rightarrow> ('e, 'b) Formats \<Rightarrow>
    string \<Rightarrow> string \<Rightarrow> 'r \<Rightarrow> 'p \<Rightarrow> CancellationToken \<Rightarrow> 's storeMap \<Rightarrow>
    's storeMap \<times> (string \<times> ('e, 'q, 'r, 'b, 'p) call) list \<times> (error + unit)" where
  "add_range S F storeKey path lodRange styleProvider cancelToken m =
     (let m1 = subscript storeKey m in
      case add_functor F path cancelToken (rangeFunctor S lodRange styleProvider)
             (slot_of storeKey m1, []) of
        ((p, calls), Inl err) \<Rightarrow> (assign storeKey p m1, map (Pair storeKey) calls, Inl err)
      | ((p, calls), Inr (bbox, n)) \<Rightarrow>
          if cancelToken n then
            (case p of
               None \<Rightarrow> (assign storeKey p m1, map (Pair storeKey) calls, Inl NullStore)
             | Some s \<Rightarrow>
                 (assign storeKey (Some (es_erase_bbox S bbox lodRange s)) m1,
                  map (Pair storeKey) (calls @ [EraseBBox bbox lodRange]), Inr ()))
          else (assign storeKey p m1, map (Pair storeKey) calls, Inr ()))"

definition add_bbox :: "('s, 'e, 'q, 'r, 'b, 'p, 'v) ElementStore \<Rightarrow> ('e, 'b) Formats \<Rightarrow>
    string \<Rightarrow> string \<Rightarrow> 'b \<Rightarrow> 'r \<Rightarrow> 'p \<Rightarrow> CancellationToken \<Rightarrow> 's storeMap \<Rightarrow>
    's storeMap \<times> (string \<times> ('e, 'q, 'r, 'b, 'p) call) list \<times> (error + unit)" where
  "add_bbox S F storeKey path bbox lodRange styleProvider cancelToken m =
     (let m1 = subscript storeKey m in
      case add_functor F path cancelToken (bboxFunctor S bbox lodRange styleProvider)
             (slot_of storeKey m1, []) of
        ((p, calls), Inl err) \<Rightarrow> (assign storeKey p m1, map (Pair storeKey) calls, Inl err)
      | ((p, calls), Inr (parsed, n)) \<Rightarrow>
          if cancelToken n then
            (case p of
               None \<Rightarrow> (assign storeKey p m1, map (Pair storeKey) calls, Inl NullStore)
             | Some s \<Rightarrow>
                 (assign storeKey (Some (es_erase_bbox S bbox lodRange s)) m1,
                  map (Pair storeKey) (calls @ [EraseBBox bbox lodRange]), Inr ()))
          else (assign storeKey p m1, map (Pair storeKey) calls, Inr ()))"

subsection \<open>Federated queries\<close>

text \<open>
  The three loops over \<^verbatim>\<open>storeMap_\<close>, in its iteration order. The visitor is one
  object handed to every store in turn, so its state is threaded through the loop.
\<close>

fun search_terms :: "('s, 'e, 'q, 'r, 'b, 'p, 'v) ElementStore \<Rightarrow> string \<Rightarrow> string \<Rightarrow> string \<Rightarrow>
    'b \<Rightarrow> 'r \<Rightarrow> 'v \<Rightarrow> CancellationToken \<Rightarrow> 's storeMap \<Rightarrow>
    's storeMap \<times> (string \<times> ('e, 'q, 'r, 'b, 'p) call) list \<times> (error + 'v)" where
  "search_terms S notTerms andTerms orTerms bbox lodRange visitor cancelToken [] =
     ([], [], Inr visitor)"
| "search_terms S notTerms andTerms orTerms bbox lodRange visitor cancelToken ((k, p) # m) =
     (case p of
        None \<Rightarrow> ((k, p) # m, [], Inl NullStore)
      | Some s \<Rightarrow>
          (case es_search_terms S notTerms andTerms orTerms bbox lodRange visitor cancelToken s of
             (visitor', s') \<Rightarrow>
               (case search_terms S notTerms andTerms orTerms bbox lodRange visitor' cancelToken m of
                  (m', calls, res) \<Rightarrow>
                    ((k, Some s') # m',
                     (k, SearchTerms notTerms andTerms orTerms bbox lodRange) # calls, res))))"

fun search_quadKey :: "('s, 'e, 'q, 'r, 'b, 'p, 'v) ElementStore \<Rightarrow> 'q \<Rightarrow> 'p \<Rightarrow> 'v \<Rightarrow>
    CancellationToken \<Rightarrow> 's storeMap \<Rightarrow>
    's storeMap \<times> (string \<times> ('e, 'q, 'r, 'b, 'p) call) list \<times> (error + 'v)" where
  "search_quadKey S quadKey styleProvider visitor cancelToken [] = ([], [], Inr visitor)"
| "search_quadKey S quadKey styleProvider visitor cancelToken ((k, p) # m) =
     (case p of
        None \<Rightarrow> ((k, p) # m, [], Inl NullStore)
      | Some s \<Rightarrow>
          if es_hasData S s quadKey then
            (case es_search_tile S quadKey visitor cancelToken s of
               (visitor', s') \<Rightarrow>
                 (case search_quadKey S quadKey styleProvider visitor' cancelToken m of
                    (m', calls, res) \<Rightarrow>
                      ((k, Some s') # m',
                       (k, HasData quadKey) # (k, SearchTile quadKey) # calls, res)))
          else
            (case search_quadKey S quadKey styleProvider visitor cancelToken m of
               (m', calls, res) \<Rightarrow> ((k, Some s) # m', (k, HasData quadKey) # calls, res)))"

fun hasData :: "('s, 'e, 'q, 'r, 'b, 'p, 'v) ElementStore \<Rightarrow> 'q \<Rightarrow> 's storeMap \<Rightarrow>
    (string \<times> ('e, 'q, 'r, 'b, 'p) call) list \<times> (error + bool)" where
  "hasData S quadKey [] = ([], Inr False)"
| "hasData S quadKey ((k, p) # m) =
     (case p of
        None \<Rightarrow> ([], Inl NullStore)
      | Some s \<Rightarrow>
          if es_hasData S s quadKey then ([(k, HasData quadKey)], Inr True)
          else (case hasData S quadKey m of
                  (calls, res) \<Rightarrow> ((k, HasData quadKey) # calls, res)))"

text \<open>\<open>reports S quadKey x\<close>: the slot of the entry \<open>x\<close> holds a store that has data for the tile.\<close>

definition reports :: "('s, 'e, 'q, 'r, 'b, 'p, 'v) ElementStore \<Rightarrow> 'q \<Rightarrow> string \<times> 's option \<Rightarrow> bool" where
  "reports S quadKey x = (case snd x of None \<Rightarrow> False | Some s \<Rightarrow> es_hasData S s quadKey)"

subsection \<open>A store and a build to run the coordinator on\<close>

text \<open>
  Modelled from the spec: the concrete element stores are declared outside GeoStore.cpp.
  The specification describes a store as a sink that keeps an element under a tile, under
  a range, or under a bounding box and range, erases what it keeps under a tile or under
  a bounding box and range, and reports whether it holds data for a tile. \<open>memStore\<close>
  is the plainest such store: its state lists the elements it holds with the scope each
  was stored under. Erasing a tile drops what is held under that tile, erasing a bounding
  box and range drops what is held under that range or under that box and range, and a
  tile has data when something is held under it. Elements, quad keys, ranges and boxes
  are numbers; the visitor collects the elements it is shown.
\<close>

datatype scope = InTile nat | InRange nat | InBox nat nat

definition memStore :: "((scope \<times> nat) list, nat, nat, nat, nat, unit, nat list) ElementStore" where
  "memStore = \<lparr>
     es_store_range = (\<lambda>e r p s. (True, s @ [(InRange r, e)])),
     es_store_tile = (\<lambda>e q p s. (True, s @ [(InTile q, e)])),
     es_store_bbox = (\<lambda>e b r p s. (True, s @ [(InBox b r, e)])),
     es_erase_tile = (\<lambda>q s. filter (\<lambda>x. fst x \<noteq> InTile q) s),
     es_erase_bbox = (\<lambda>b r s. filter (\<lambda>x. fst x \<noteq> InRange r \<and> fst x \<noteq> InBox b r) s),
     es_hasData = (\<lambda>s q. InTile q \<in> fst ` set s),
     es_search_terms = (\<lambda>notTerms andTerms orTerms b r v tok s. (v @ map snd s, s)),
     es_search_tile = (\<lambda>q v tok s. (v @ map snd (filter (\<lambda>x. fst x = InTile q) s), s)) \<rparr>"

text \<open>
  A build without the Pbf parser whose files hold five elements each; the bounding box
  of a run is the sum of the elements offered.
\<close>

definition fiveElements :: "(nat, nat) Formats" where
  "fiveElements = \<lparr> PBF_SUPPORTED_ENABLED = False, parse = (\<lambda>fmt path. [1, 2, 3, 4, 5]),
     emptyBBox = 0, expand = (\<lambda>b e. b + e) \<rparr>"

text \<open>A build whose files hold no element.\<close>

definition noElements :: "(nat, nat) Formats" where
  "noElements = \<lparr> PBF_SUPPORTED_ENABLED = False, parse = (\<lambda>fmt path. []),
     emptyBBox = 0, expand = (\<lambda>b e. b + e) \<rparr>"

text \<open>Two tokens: one that is raised from the poll numbered \<open>k\<close> on, one that never is.\<close>

definition cancelledFrom :: "nat \<Rightarrow> CancellationToken" where
  "cancelledFrom k n = (k \<le> n)"

definition neverCancelled :: CancellationToken where
  "neverCancelled n = False"

subsection \<open>Format detection: properties\<close>

lemma endsWith_suffix: "endsWith str ending = suffix ending str"
proof
  assume "endsWith str ending"
  then have "drop (length str - length ending) str = ending"
    by (simp add: endsWith_def)
  then have "str = take (length str - length ending) str @ ending"
    by (metis append_take_drop_id)
  then show "suffix ending str"
    unfolding suffix_def by blast
next
  assume "suffix ending str"
  then obtain zs where "str = zs @ ending"
    unfolding suffix_def by blast
  then show "endsWith str ending"
    by (simp add: endsWith_def)
qed

text \<open>
  C7. Format detection is a total function of the path alone: a path that ends in
  \<open>pbf\<close> is Pbf, one that ends in \<open>xml\<close> is Xml, one that ends in \<open>json\<close> is Json,
  and a path with none of these suffixes (the empty path too) is Shape.
\<close>

theorem getFormatTypeFromPath_suffix:
  "(suffix ''pbf'' path \<longrightarrow> getFormatTypeFromPath path = Pbf) \<and>
   (suffix ''xml'' path \<longrightarrow> getFormatTypeFromPath path = Xml) \<and>
   (suffix ''json'' path \<longrightarrow> getFormatTypeFromPath path = Json) \<and>
   (\<not> suffix ''pbf'' path \<and> \<not> suffix ''xml'' path \<and> \<not> suffix ''json'' path
      \<longrightarrow> getFormatTypeFromPath path = Shape)"
  by (auto simp: getFormatTypeFromPath_def endsWith_suffix suffix_def)

theorem getFormatTypeFromPath_suffix_witness:
  "suffix ''pbf'' ''map.pbf'' \<and> getFormatTypeFromPath ''map.pbf'' = Pbf \<and>
   suffix ''xml'' ''map.xml'' \<and> getFormatTypeFromPath ''map.xml'' = Xml \<and>
   suffix ''json'' ''map.json'' \<and> getFormatTypeFromPath ''map.json'' = Json \<and>
   \<not> suffix ''pbf'' ''map.shp'' \<and> \<not> suffix ''xml'' ''map.shp'' \<and>
   \<not> suffix ''json'' ''map.shp'' \<and> getFormatTypeFromPath ''map.shp'' = Shape"
  using getFormatTypeFromPath_suffix [of "''map.pbf''"]
    getFormatTypeFromPath_suffix [of "''map.xml''"]
    getFormatTypeFromPath_suffix [of "''map.json''"]
    getFormatTypeFromPath_suffix [of "''map.shp''"]
  by (simp add: endsWith_suffix [symmetric] endsWith_def)

subsection \<open>The store map: properties\<close>

lemma emplace_present: "ordered m \<Longrightarrow> k \<in> fst ` set m \<Longrightarrow> emplace k v m = m"
proof (induction m)
  case Nil
  then show ?case by simp
next
  case (Cons a m)
  obtain k' v' where a: "a = (k', v')" by (cases a)
  from Cons.prems(1) have tl: "ordered m" and hd: "\<forall>x \<in> set m. k' < fst x"
    by (auto simp: ordered_def a)
  show ?case
  proof (cases "k = k'")
    case True
    then show ?thesis by (simp add: a)
  next
    case False
    with Cons.prems(2) have mem: "k \<in> fst ` set m" by (auto simp: a)
    with hd have "k' < k" by auto
    then have "\<not> k < k'" by simp
    with \<open>k' < k\<close> Cons.IH [OF tl mem] show ?thesis by (simp add: a)
  qed
qed



lemma map_of_present: "map_of m k = Some p \<Longrightarrow> k \<in> fst ` set m"
  by (metis domI dom_map_of_conv_image_fst)

lemma subscript_present: "ordered m \<Longrightarrow> map_of m k = Some p \<Longrightarrow> subscript k m = m"
  by (simp add: subscript_def emplace_present map_of_present)

lemma slot_of_present: "map_of m k = Some p \<Longrightarrow> slot_of k m = p"
  by (simp add: slot_of_def)

lemma assign_keys: "map fst (assign k p m) = map fst m"
  by (induction m) (auto simp: assign_def)

lemma slot_of_assign: "k \<in> fst ` set m \<Longrightarrow> slot_of k (assign k p m) = p"
  by (induction m) (auto simp: slot_of_def assign_def)

subsection \<open>The dispatcher: properties\<close>

text \<open>
  A run over a registered store offers a prefix of the parsed elements: it returns the
  store after these writes, one recorded call for each, and the bounding box of the
  elements offered.
\<close>

lemma visit_storeFunctor:
  "\<exists>j s'. j \<le> length es \<and>
     visit F tok (storeFunctor mk op) es n bb (Some s, tr) =
       ((Some s', tr @ map mk (take j es)),
        Inr (foldl (expand F) bb (take j es), if j < length es then Suc (n + j) else n + j)) \<and>
     (j < length es \<longrightarrow> tok (n + j)) \<and> (\<forall>i < j. \<not> tok (n + i))"
proof (induction es arbitrary: n bb s tr)
  case Nil
  then show ?case by simp
next
  case (Cons e es)
  show ?case
  proof (cases "tok n")
    case True
    then show ?thesis
      by (intro exI [of _ 0]) simp
  next
    case False
    obtain kept s1 where op: "op e s = (kept, s1)" by (cases "op e s")
    from Cons.IH [of "Suc n" "expand F bb e" s1 "tr @ [mk e]"]
    obtain j s' where j: "j \<le> length es"
      and run: "visit F tok (storeFunctor mk op) es (Suc n) (expand F bb e) (Some s1, tr @ [mk e]) =
        ((Some s', (tr @ [mk e]) @ map mk (take j es)),
         Inr (foldl (expand F) (expand F bb e) (take j es),
              if j < length es then Suc (Suc n + j) else Suc n + j))"
      and stop: "j < length es \<longrightarrow> tok (Suc n + j)" and go: "\<forall>i < j. \<not> tok (Suc n + i)"
      by blast
    have go': "\<forall>i < Suc j. \<not> tok (n + i)"
      using False go by (auto simp: less_Suc_eq_0_disj)
    have step: "visit F tok (storeFunctor mk op) (e # es) n bb (Some s, tr) =
       visit F tok (storeFunctor mk op) es (Suc n) (expand F bb e) (Some s1, tr @ [mk e])"
      using False op by (simp add: storeFunctor_def)
    have "Suc j \<le> length (e # es) \<and>
      visit F tok (storeFunctor mk op) (e # es) n bb (Some s, tr) =
       ((Some s', tr @ map mk (take (Suc j) (e # es))),
        Inr (foldl (expand F) bb (take (Suc j) (e # es)),
           if Suc j < length (e # es) then Suc (n + Suc j) else n + Suc j)) \<and>
      (Suc j < length (e # es) \<longrightarrow> tok (n + Suc j)) \<and> (\<forall>i < Suc j. \<not> tok (n + i))"
      unfolding step run using j stop go' by simp
    then show ?thesis by blast
  qed
qed

lemma add_functor_supported:
  "getFormatTypeFromPath path = Pbf \<longrightarrow> PBF_SUPPORTED_ENABLED F \<Longrightarrow>
   add_functor F path tok functor w =
     visit F tok functor (parse F (getFormatTypeFromPath path) path) 0 (emptyBBox F) w"
  by (cases "getFormatTypeFromPath path") (simp_all add: add_functor_def)

lemma add_functor_storeFunctor:
  assumes "add_functor F path tok (storeFunctor mk op) (Some s, []) = ((p, calls), Inr (bbox, n))"
  shows "\<exists>s' j. p = Some s' \<and> calls = map mk (take j (parse F (getFormatTypeFromPath path) path)) \<and>
     bbox = foldl (expand F) (emptyBBox F) (take j (parse F (getFormatTypeFromPath path) path))"
proof -
  have sup: "getFormatTypeFromPath path = Pbf \<longrightarrow> PBF_SUPPORTED_ENABLED F"
    using assms by (auto simp: add_functor_def split: if_splits)
  obtain j s' where
    "visit F tok (storeFunctor mk op) (parse F (getFormatTypeFromPath path) path) 0 (emptyBBox F) (Some s, []) =
       ((Some s', [] @ map mk (take j (parse F (getFormatTypeFromPath path) path))),
        Inr (foldl (expand F) (emptyBBox F) (take j (parse F (getFormatTypeFromPath path) path)),
          if j < length (parse F (getFormatTypeFromPath path) path) then Suc (0 + j) else 0 + j))"
    using visit_storeFunctor [of "parse F (getFormatTypeFromPath path) path" F tok mk op 0 "emptyBBox F" s "[]"]
    by blast
  with assms show ?thesis
    unfolding add_functor_supported [OF sup] by auto
qed

subsection \<open>Cancelled ingestion\<close>

text \<open>
  C1, as amended. Tile-scoped ingestion into a registered store: when the poll that follows
  the dispatcher run reports cancelled, the calls on the store are one tile-scoped store
  operation for each element offered, all with the quad key of the call, followed by
  exactly one tile-scoped erase with that quad key, on that store. The state of the store
  afterward is this erase applied to the state the writes left, so that a store whose tile
  erase clears the tile reports no data for it. The state before the call is not
  restored in general: what the tile held before is erased with the rest.
\<close>

theorem add_quadKey_cancelled:
  assumes "ordered m" and "map_of m storeKey = Some (Some s)"
    and "add_functor F path cancelToken (quadKeyFunctor S quadKey styleProvider) (Some s, []) =
           ((p, calls), Inr (parsed, n))"
    and "cancelToken n"
  shows "\<exists>s' j.
      p = Some s' \<and>
      calls = map (\<lambda>element. StoreTile element quadKey styleProvider)
                (take j (parse F (getFormatTypeFromPath path) path)) \<and>
      add_quadKey S F storeKey path quadKey styleProvider cancelToken m =
        (assign storeKey (Some (es_erase_tile S quadKey s')) m,
         map (Pair storeKey) (calls @ [EraseTile quadKey]), Inr ()) \<and>
      slot_of storeKey (fst (add_quadKey S F storeKey path quadKey styleProvider cancelToken m)) =
        Some (es_erase_tile S quadKey s') \<and>
      ((\<forall>t. \<not> es_hasData S (es_erase_tile S quadKey t) quadKey) \<longrightarrow>
        \<not> reports S quadKey (storeKey,
            slot_of storeKey (fst (add_quadKey S F storeKey path quadKey styleProvider cancelToken m))))"
proof -
  from add_functor_storeFunctor [OF assms(3) [unfolded quadKeyFunctor_def]]
  obtain s' j where p: "p = Some s'"
    and calls: "calls = map (\<lambda>element. StoreTile element quadKey styleProvider)
                (take j (parse F (getFormatTypeFromPath path) path))"
    by blast
  have m1: "subscript storeKey m = m" and slot: "slot_of storeKey m = Some s"
    using assms(1,2) by (simp_all add: subscript_present slot_of_present)
  have res: "add_quadKey S F storeKey path quadKey styleProvider cancelToken m =
        (assign storeKey (Some (es_erase_tile S quadKey s')) m,
         map (Pair storeKey) (calls @ [EraseTile quadKey]), Inr ())"
    using assms(3,4) p by (simp add: add_quadKey_def m1 slot)
  have "storeKey \<in> fst ` set m"
    using assms(2) by (rule map_of_present)
  then have after: "slot_of storeKey (fst (add_quadKey S F storeKey path quadKey styleProvider cancelToken m)) =
        Some (es_erase_tile S quadKey s')"
    unfolding res by (simp add: slot_of_assign)
  then have "(\<forall>t. \<not> es_hasData S (es_erase_tile S quadKey t) quadKey) \<longrightarrow>
        \<not> reports S quadKey (storeKey,
            slot_of storeKey (fst (add_quadKey S F storeKey path quadKey styleProvider cancelToken m)))"
    by (simp add: reports_def)
  with p calls res after show ?thesis by blast
qed

theorem add_quadKey_cancelled_witness:
  "ordered [(''roads'', Some [(InTile 7, 9::nat)])] \<and>
   map_of [(''roads'', Some [(InTile 7, 9::nat)])] ''roads'' = Some (Some [(InTile 7, 9)]) \<and>
   add_functor fiveElements ''data.json'' (cancelledFrom 3) (quadKeyFunctor memStore 7 ())
       (Some [(InTile 7, 9)], []) =
     ((Some [(InTile 7, 9), (InTile 7, 1), (InTile 7, 2), (InTile 7, 3)],
       [StoreTile 1 7 (), StoreTile 2 7 (), StoreTile 3 7 ()]), Inr (6, 4)) \<and>
   cancelledFrom 3 4 \<and>
   (\<forall>t. \<not> es_hasData memStore (es_erase_tile memStore 7 t) 7) \<and>
   \<not> reports memStore 7 (''roads'',
       slot_of ''roads'' (fst (add_quadKey memStore fiveElements ''roads'' ''data.json'' 7 ()
         (cancelledFrom 3) [(''roads'', Some [(InTile 7, 9)])]))) \<and>
   add_quadKey memStore fiveElements ''roads'' ''data.json'' 7 () (cancelledFrom 3)
       [(''roads'', Some [(InTile 7, 9)])] =
     ([(''roads'', Some [])],
      [(''roads'', StoreTile 1 7 ()), (''roads'', StoreTile 2 7 ()), (''roads'', StoreTile 3 7 ()),
       (''roads'', EraseTile 7)], Inr ())"
proof -
  have h1: "ordered [(''roads'', Some [(InTile 7, 9::nat)])]"
    by (simp add: ordered_def)
  have h2: "map_of [(''roads'', Some [(InTile 7, 9::nat)])] ''roads'' = Some (Some [(InTile 7, 9)])"
    by simp
  have h3: "add_functor fiveElements ''data.json'' (cancelledFrom 3) (quadKeyFunctor memStore 7 ())
       (Some [(InTile 7, 9)], []) =
     ((Some [(InTile 7, 9), (InTile 7, 1), (InTile 7, 2), (InTile 7, 3)],
       [StoreTile 1 7 (), StoreTile 2 7 (), StoreTile 3 7 ()]), Inr (6, 4))"
    by (simp add: add_functor_def getFormatTypeFromPath_def endsWith_def fiveElements_def
        cancelledFrom_def quadKeyFunctor_def storeFunctor_def memStore_def)
  have h4: "cancelledFrom 3 4"
    by (simp add: cancelledFrom_def)
  have h5: "\<forall>t. \<not> es_hasData memStore (es_erase_tile memStore 7 t) 7"
    by (auto simp: memStore_def)
  from add_quadKey_cancelled [OF h1 h2 h3 h4] h1 h2 h3 h4 h5 show ?thesis
    by (auto simp: memStore_def assign_def)
qed

text \<open>
  C1, counterexample. A store that holds element 9 in tile 7 before a cancelled ingestion
  into tile 7 holds nothing in that tile afterward: the store map after the call is not
  the one before the call.
\<close>

theorem add_quadKey_not_restored:
  "fst (add_quadKey memStore fiveElements ''roads'' ''data.json'' 7 () (cancelledFrom 3)
       [(''roads'', Some [(InTile 7, 9)])]) = [(''roads'', Some [])] \<and>
   fst (add_quadKey memStore fiveElements ''roads'' ''data.json'' 7 () (cancelledFrom 3)
       [(''roads'', Some [(InTile 7, 9)])]) \<noteq> [(''roads'', Some [(InTile 7, 9)])]"
  by (simp add: add_quadKey_def subscript_def slot_of_def assign_def
      add_functor_def getFormatTypeFromPath_def endsWith_def fiveElements_def
        cancelledFrom_def quadKeyFunctor_def storeFunctor_def memStore_def)

text \<open>
  C5. Range-scoped ingestion into a registered store: when the poll that follows the
  dispatcher run reports cancelled, the calls on the store are one range-scoped store
  operation for each element offered, followed by one erase scoped to a bounding box and
  a range. The box is the one the dispatcher returned, which is the box accumulated from
  exactly the elements offered in this run, and the range is the range of the writes.
\<close>

theorem add_range_cancelled:
  assumes "ordered m" and "map_of m storeKey = Some (Some s)"
    and "add_functor F path cancelToken (rangeFunctor S lodRange styleProvider) (Some s, []) =
           ((p, calls), Inr (bbox, n))"
    and "cancelToken n"
  shows "\<exists>s' j.
      p = Some s' \<and>
      calls = map (\<lambda>element. StoreRange element lodRange styleProvider)
                (take j (parse F (getFormatTypeFromPath path) path)) \<and>
      bbox = foldl (expand F) (emptyBBox F) (take j (parse F (getFormatTypeFromPath path) path)) \<and>
      add_range S F storeKey path lodRange styleProvider cancelToken m =
        (assign storeKey (Some (es_erase_bbox S bbox lodRange s')) m,
         map (Pair storeKey) (calls @ [EraseBBox bbox lodRange]), Inr ())"
proof -
  from add_functor_storeFunctor [OF assms(3) [unfolded rangeFunctor_def]]
  obtain s' j where p: "p = Some s'"
    and calls: "calls = map (\<lambda>element. StoreRange element lodRange styleProvider)
                (take j (parse F (getFormatTypeFromPath path) path))"
    and bbox: "bbox = foldl (expand F) (emptyBBox F) (take j (parse F (getFormatTypeFromPath path) path))"
    by blast
  have m1: "subscript storeKey m = m" and slot: "slot_of storeKey m = Some s"
    using assms(1,2) by (simp_all add: subscript_present slot_of_present)
  have "add_range S F storeKey path lodRange styleProvider cancelToken m =
        (assign storeKey (Some (es_erase_bbox S bbox lodRange s')) m,
         map (Pair storeKey) (calls @ [EraseBBox bbox lodRange]), Inr ())"
    using assms(3,4) p by (simp add: add_range_def m1 slot)
  with p calls bbox show ?thesis by blast
qed

theorem add_range_cancelled_witness:
  "ordered [(''roads'', Some [(InTile 7, 9::nat)])] \<and>
   map_of [(''roads'', Some [(InTile 7, 9::nat)])] ''roads'' = Some (Some [(InTile 7, 9)]) \<and>
   add_functor fiveElements ''data.xml'' (cancelledFrom 3) (rangeFunctor memStore 2 ())
       (Some [(InTile 7, 9)], []) =
     ((Some [(InTile 7, 9), (InRange 2, 1), (InRange 2, 2), (InRange 2, 3)],
       [StoreRange 1 2 (), StoreRange 2 2 (), StoreRange 3 2 ()]), Inr (6, 4)) \<and>
   cancelledFrom 3 4 \<and>
   add_range memStore fiveElements ''roads'' ''data.xml'' 2 () (cancelledFrom 3)
       [(''roads'', Some [(InTile 7, 9)])] =
     ([(''roads'', Some [(InTile 7, 9)])],
      [(''roads'', StoreRange 1 2 ()), (''roads'', StoreRange 2 2 ()), (''roads'', StoreRange 3 2 ()),
       (''roads'', EraseBBox 6 2)], Inr ())"
proof -
  have h1: "ordered [(''roads'', Some [(InTile 7, 9::nat)])]"
    by (simp add: ordered_def)
  have h2: "map_of [(''roads'', Some [(InTile 7, 9::nat)])] ''roads'' = Some (Some [(InTile 7, 9)])"
    by simp
  have h3: "add_functor fiveElements ''data.xml'' (cancelledFrom 3) (rangeFunctor memStore 2 ())
       (Some [(InTile 7, 9)], []) =
     ((Some [(InTile 7, 9), (InRange 2, 1), (InRange 2, 2), (InRange 2, 3)],
       [StoreRange 1 2 (), StoreRange 2 2 (), StoreRange 3 2 ()]), Inr (6, 4))"
    by (simp add: add_functor_def getFormatTypeFromPath_def endsWith_def fiveElements_def
        cancelledFrom_def rangeFunctor_def storeFunctor_def memStore_def)
  have h4: "cancelledFrom 3 4"
    by (simp add: cancelledFrom_def)
  from add_range_cancelled [OF h1 h2 h3 h4] h1 h2 h3 h4 show ?thesis
    by (auto simp: memStore_def assign_def)
qed



subsection \<open>Formats without a parser\<close>

lemma add_functor_fail:
  "getFormatTypeFromPath path = Pbf \<Longrightarrow> \<not> PBF_SUPPORTED_ENABLED F \<Longrightarrow>
   add_functor F path cancelToken functor w = (w, Inl UnsupportedFormat)"
  by (simp add: add_functor_def)

text \<open>
  C8. A path detected as Pbf in a build without \<^verbatim>\<open>PBF_SUPPORTED_ENABLED\<close> has no
  parser: the dispatcher fails with the unsupported-format error and leaves the state of
  its callback as it was, never having invoked it, and each path-based entry point
  passes this error to its caller having made no call on any store.
\<close>

theorem add_functor_unsupported:
  assumes "getFormatTypeFromPath path = Pbf" and "\<not> PBF_SUPPORTED_ENABLED F"
  shows "add_functor F path cancelToken callback w = (w, Inl UnsupportedFormat) \<and>
     snd (add_quadKey S F storeKey path quadKey styleProvider cancelToken m) =
       ([], Inl UnsupportedFormat) \<and>
     snd (add_range S F storeKey path lodRange styleProvider cancelToken m) =
       ([], Inl UnsupportedFormat) \<and>
     snd (add_bbox S F storeKey path bbox lodRange styleProvider cancelToken m) =
       ([], Inl UnsupportedFormat)"
  by (simp add: add_functor_fail [OF assms] add_quadKey_def add_range_def add_bbox_def Let_def)

theorem add_functor_unsupported_witness:
  "getFormatTypeFromPath ''berlin.osm.pbf'' = Pbf \<and> \<not> PBF_SUPPORTED_ENABLED fiveElements \<and>
   add_functor fiveElements ''berlin.osm.pbf'' neverCancelled (quadKeyFunctor memStore 7 ())
     (Some [], []) = ((Some [], []), Inl UnsupportedFormat) \<and>
   snd (add_quadKey memStore fiveElements ''roads'' ''berlin.osm.pbf'' 7 () neverCancelled
     [(''roads'', Some [])]) = ([], Inl UnsupportedFormat) \<and>
   snd (add_range memStore fiveElements ''roads'' ''berlin.osm.pbf'' 2 () neverCancelled
     [(''roads'', Some [])]) = ([], Inl UnsupportedFormat) \<and>
   snd (add_bbox memStore fiveElements ''roads'' ''berlin.osm.pbf'' 11 2 () neverCancelled
     [(''roads'', Some [])]) = ([], Inl UnsupportedFormat)"
proof -
  have h1: "getFormatTypeFromPath ''berlin.osm.pbf'' = Pbf"
    by (simp add: getFormatTypeFromPath_def endsWith_def)
  have h2: "\<not> PBF_SUPPORTED_ENABLED fiveElements"
    by (simp add: fiveElements_def)
  from add_functor_unsupported [OF h1 h2, where cancelToken = neverCancelled
      and callback = "quadKeyFunctor memStore 7 ()" and w = "(Some [], [])" and S = memStore
      and storeKey = "''roads''" and quadKey = 7 and styleProvider = "()"
      and m = "[(''roads'', Some [])]" and lodRange = 2 and bbox = 11] h1 h2
  show ?thesis
    by simp
qed

subsection \<open>Direct element ingestion\<close>

text \<open>
  C10. Direct ingestion of an element into a registered store makes exactly one call,
  the range-scoped store operation with that element, and no erase; the outcome is the
  same for every cancellation token, a cancelled one included.
\<close>

theorem add_element_ignores_token:
  assumes "ordered m" and "map_of m storeKey = Some (Some s)"
  shows "add_element S storeKey element lodRange styleProvider cancelToken m =
     (assign storeKey (Some (snd (es_store_range S element lodRange styleProvider s))) m,
      [(storeKey, StoreRange element lodRange styleProvider)], Inr ())"
  using assms
  by (simp add: add_element_def subscript_present slot_of_present split: prod.splits)

theorem add_element_ignores_token_witness:
  "ordered [(''roads'', Some [])] \<and> map_of [(''roads'', Some [])] ''roads'' = Some (Some []) \<and>
   add_element memStore ''roads'' 5 1 () (cancelledFrom 0) [(''roads'', Some [])] =
     ([(''roads'', Some [(InRange 1, 5)])], [(''roads'', StoreRange 5 1 ())], Inr ())"
proof -
  have h1: "ordered [(''roads'', Some [])]"
    by (simp add: ordered_def)
  have h2: "map_of [(''roads'', Some [])] ''roads'' = Some (Some [])"
    by simp
  from add_element_ignores_token [OF h1 h2, where S = memStore and element = 5
      and lodRange = 1 and styleProvider = "()" and cancelToken = "cancelledFrom 0"] h1 h2
  show ?thesis
    by (simp add: memStore_def assign_def)
qed

subsection \<open>Registration\<close>

text \<open>
  C2. Registering a store under a key that the map already holds changes nothing: the map
  is the same, the slot still holds the original store, and \<open>hasData\<close> and both
  searches return, call for call, what they returned before.
\<close>

theorem registerStore_present:
  assumes "ordered m" and "map_of m storeKey = Some original"
  shows "registerStore storeKey store m = m \<and>
     slot_of storeKey (registerStore storeKey store m) = original \<and>
     hasData S quadKey (registerStore storeKey store m) = hasData S quadKey m \<and>
     search_quadKey S quadKey styleProvider visitor cancelToken (registerStore storeKey store m) =
       search_quadKey S quadKey styleProvider visitor cancelToken m \<and>
     search_terms S notTerms andTerms orTerms bbox lodRange visitor cancelToken
         (registerStore storeKey store m) =
       search_terms S notTerms andTerms orTerms bbox lodRange visitor cancelToken m"
proof -
  have "registerStore storeKey store m = m"
    using assms by (simp add: registerStore_def emplace_present map_of_present)
  then show ?thesis
    using assms(2) by (simp add: slot_of_present)
qed

theorem registerStore_present_witness:
  "ordered [(''roads'', Some [(InTile 7, 9::nat)])] \<and>
   map_of [(''roads'', Some [(InTile 7, 9::nat)])] ''roads'' = Some (Some [(InTile 7, 9)]) \<and>
   registerStore ''roads'' (Some []) [(''roads'', Some [(InTile 7, 9::nat)])] =
     [(''roads'', Some [(InTile 7, 9)])] \<and>
   hasData memStore 7 (registerStore ''roads'' (Some []) [(''roads'', Some [(InTile 7, 9)])]) =
     ([(''roads'', HasData 7)], Inr True) \<and>
   search_quadKey memStore 7 () [] neverCancelled
       (registerStore ''roads'' (Some []) [(''roads'', Some [(InTile 7, 9)])]) =
     ([(''roads'', Some [(InTile 7, 9)])], [(''roads'', HasData 7), (''roads'', SearchTile 7)], Inr [9])"
proof -
  have h1: "ordered [(''roads'', Some [(InTile 7, 9::nat)])]"
    by (simp add: ordered_def)
  have h2: "map_of [(''roads'', Some [(InTile 7, 9::nat)])] ''roads'' = Some (Some [(InTile 7, 9)])"
    by simp
  from registerStore_present [OF h1 h2, where store = "Some []" and S = memStore and quadKey = 7
      and styleProvider = "()" and visitor = "[]" and cancelToken = neverCancelled
      and notTerms = "[]" and andTerms = "[]" and orTerms = "[]" and bbox = 0
      and lodRange = 0] h1 h2
  show ?thesis
    by (simp add: memStore_def)
qed

subsection \<open>Federated queries: properties\<close>

text \<open>
  The calls of a tile search: every store is asked whether it has data, and a store that
  has is searched right after.
\<close>

lemma search_quadKey_calls:
  "populated m \<Longrightarrow>
   fst (snd (search_quadKey S quadKey styleProvider visitor cancelToken m)) =
     concat (map (\<lambda>x. (fst x, HasData quadKey) #
                       (if reports S quadKey x then [(fst x, SearchTile quadKey)] else [])) m) \<and>
   (\<exists>visitor'. snd (snd (search_quadKey S quadKey styleProvider visitor cancelToken m)) = Inr visitor')"
proof (induction m arbitrary: visitor)
  case Nil
  then show ?case by simp
next
  case (Cons a m)
  then obtain k s where a: "a = (k, Some s)" and pop: "populated m"
    by (cases a) (auto simp: populated_def)
  let ?rest = "concat (map (\<lambda>x. (fst x, HasData quadKey) #
                       (if reports S quadKey x then [(fst x, SearchTile quadKey)] else [])) m)"
  show ?case
  proof (cases "es_hasData S s quadKey")
    case True
    obtain visitor1 s1 where tile: "es_search_tile S quadKey visitor cancelToken s = (visitor1, s1)"
      by (cases "es_search_tile S quadKey visitor cancelToken s")
    obtain m' calls res where
      rest: "search_quadKey S quadKey styleProvider visitor1 cancelToken m = (m', calls, res)"
      by (cases "search_quadKey S quadKey styleProvider visitor1 cancelToken m")
    from Cons.IH [OF pop, of visitor1] rest
    have "calls = ?rest" and "\<exists>visitor'. res = Inr visitor'"
      by simp_all
    with True tile rest show ?thesis
      by (simp add: a reports_def)
  next
    case False
    obtain m' calls res where
      rest: "search_quadKey S quadKey styleProvider visitor cancelToken m = (m', calls, res)"
      by (cases "search_quadKey S quadKey styleProvider visitor cancelToken m")
    from Cons.IH [OF pop, of visitor] rest
    have "calls = ?rest" and "\<exists>visitor'. res = Inr visitor'"
      by simp_all
    with False rest show ?thesis
      by (simp add: a reports_def)
  qed
qed

lemma ordered_filter_key:
  "ordered m \<Longrightarrow> (k, p) \<in> set m \<Longrightarrow> filter (\<lambda>x. fst x = k) m = [(k, p)]"
proof (induction m)
  case Nil
  then show ?case by simp
next
  case (Cons a m)
  from Cons.prems(1) have tl: "ordered m" and hd: "\<forall>x \<in> set m. fst a < fst x"
    by (auto simp: ordered_def)
  show ?case
  proof (cases "a = (k, p)")
    case True
    with hd have "filter (\<lambda>x. fst x = k) m = []"
      by (auto simp: filter_empty_conv)
    with True show ?thesis by simp
  next
    case False
    with Cons.prems(2) have mem: "(k, p) \<in> set m" by simp
    with hd have "fst a \<noteq> k" by fastforce
    with Cons.IH [OF tl mem] show ?thesis by simp
  qed
qed

lemma count_list_concat_key:
  assumes "ordered m" and "(k, p) \<in> set m"
    and "\<And>x. fst x \<noteq> k \<Longrightarrow> count_list (f x) c = 0"
  shows "count_list (concat (map f m)) c = count_list (f (k, p)) c"
proof -
  have "count_list (concat (map f m)) c = sum_list (map (\<lambda>x. count_list (f x) c) m)"
    by (induction m) simp_all
  also have "\<dots> = sum_list (map (\<lambda>x. count_list (f x) c) (filter (\<lambda>x. fst x = k) m))"
    using assms(3) by (induction m) auto
  also have "\<dots> = count_list (f (k, p)) c"
    by (simp add: ordered_filter_key [OF assms(1,2)])
  finally show ?thesis .
qed

text \<open>
  The effects of a tile search over a map without empty slots: the visitor passes through
  the tile search of each store that has data, in map order, and the state of a store is
  what its own tile search left, or its state before when it has no data.
\<close>

lemma search_quadKey_effect:
  "populated m \<Longrightarrow>
   snd (snd (search_quadKey S quadKey styleProvider visitor cancelToken m)) =
     Inr (foldl (\<lambda>v x. case snd x of None \<Rightarrow> v
                 | Some s \<Rightarrow> if es_hasData S s quadKey
                            then fst (es_search_tile S quadKey v cancelToken s) else v)
            visitor m)"
proof (induction m arbitrary: visitor)
  case Nil
  then show ?case by simp
next
  case (Cons a m)
  then obtain k s where a: "a = (k, Some s)" and pop: "populated m"
    by (cases a) (auto simp: populated_def)
  show ?case
  proof (cases "es_hasData S s quadKey")
    case True
    obtain visitor1 s1 where tile: "es_search_tile S quadKey visitor cancelToken s = (visitor1, s1)"
      by (cases "es_search_tile S quadKey visitor cancelToken s")
    obtain m' calls res where
      rest: "search_quadKey S quadKey styleProvider visitor1 cancelToken m = (m', calls, res)"
      by (cases "search_quadKey S quadKey styleProvider visitor1 cancelToken m")
    from Cons.IH [OF pop, of visitor1] rest True tile show ?thesis
      by (simp add: a)
  next
    case False
    obtain m' calls res where
      rest: "search_quadKey S quadKey styleProvider visitor cancelToken m = (m', calls, res)"
      by (cases "search_quadKey S quadKey styleProvider visitor cancelToken m")
    from Cons.IH [OF pop, of visitor] rest False show ?thesis
      by (simp add: a)
  qed
qed

lemma search_quadKey_slot:
  "ordered m \<Longrightarrow> populated m \<Longrightarrow> (k, Some s) \<in> set m \<Longrightarrow>
   slot_of k (fst (search_quadKey S quadKey styleProvider visitor cancelToken m)) =
     Some (if es_hasData S s quadKey
           then snd (es_search_tile S quadKey
                  (foldl (\<lambda>v x. case snd x of None \<Rightarrow> v
                      | Some s \<Rightarrow> if es_hasData S s quadKey
                                 then fst (es_search_tile S quadKey v cancelToken s) else v)
                     visitor (takeWhile (\<lambda>x. fst x \<noteq> k) m))
                  cancelToken s)
           else s)"
proof (induction m arbitrary: visitor)
  case Nil
  then show ?case by simp
next
  case (Cons a m)
  from Cons.prems(2) obtain k' s' where a: "a = (k', Some s')" and pop: "populated m"
    by (cases a) (auto simp: populated_def)
  from Cons.prems(1) have tl: "ordered m" and hd: "\<forall>x \<in> set m. k' < fst x"
    by (auto simp: ordered_def a)
  obtain visitor1 s1 where tile: "es_search_tile S quadKey visitor cancelToken s' = (visitor1, s1)"
    by (cases "es_search_tile S quadKey visitor cancelToken s'")
  show ?case
  proof (cases "k' = k")
    case True
    have "(k, Some s) \<notin> set m"
      using hd True by fastforce
    with Cons.prems(3) True have same: "s' = s"
      by (simp add: a)
    obtain m1 calls1 res1 where
      r1: "search_quadKey S quadKey styleProvider visitor1 cancelToken m = (m1, calls1, res1)"
      by (cases "search_quadKey S quadKey styleProvider visitor1 cancelToken m")
    obtain m0 calls0 res0 where
      r0: "search_quadKey S quadKey styleProvider visitor cancelToken m = (m0, calls0, res0)"
      by (cases "search_quadKey S quadKey styleProvider visitor cancelToken m")
    from True same tile r1 r0 show ?thesis
      by (simp add: a slot_of_def)
  next
    case False
    with Cons.prems(3) have mem: "(k, Some s) \<in> set m"
      by (simp add: a)
    show ?thesis
    proof (cases "es_hasData S s' quadKey")
      case has: True
      obtain m1 calls1 res1 where
        r1: "search_quadKey S quadKey styleProvider visitor1 cancelToken m = (m1, calls1, res1)"
        by (cases "search_quadKey S quadKey styleProvider visitor1 cancelToken m")
      from Cons.IH [OF tl pop mem, of visitor1] r1 False has tile show ?thesis
        by (simp add: a slot_of_def)
    next
      case hasnt: False
      obtain m0 calls0 res0 where
        r0: "search_quadKey S quadKey styleProvider visitor cancelToken m = (m0, calls0, res0)"
        by (cases "search_quadKey S quadKey styleProvider visitor cancelToken m")
      from Cons.IH [OF tl pop mem, of visitor] r0 False hasnt show ?thesis
        by (simp add: a slot_of_def)
    qed
  qed
qed

text \<open>
  C3, as amended. In a tile search over a map without empty slots, the tile-scoped search
  of a registered store is invoked exactly once if the store has data for the quad key
  and not at all if it has none, and each store is asked once whether it has data. The
  invocation is the store's own search applied to its state and to the visitor as the
  stores before it left it; a store without data keeps its state, and the visitor
  returned has passed through exactly the stores that have data.
\<close>

theorem search_quadKey_filtered:
  assumes "ordered m" and "populated m" and "(k, Some s) \<in> set m"
  shows "count_list (fst (snd (search_quadKey S quadKey styleProvider visitor cancelToken m)))
           (k, SearchTile quadKey) = (if es_hasData S s quadKey then 1 else 0) \<and>
     count_list (fst (snd (search_quadKey S quadKey styleProvider visitor cancelToken m)))
           (k, HasData quadKey) = 1 \<and>
     slot_of k (fst (search_quadKey S quadKey styleProvider visitor cancelToken m)) =
       Some (if es_hasData S s quadKey
             then snd (es_search_tile S quadKey
                    (foldl (\<lambda>v x. case snd x of None \<Rightarrow> v
                        | Some s \<Rightarrow> if es_hasData S s quadKey
                                   then fst (es_search_tile S quadKey v cancelToken s) else v)
                       visitor (takeWhile (\<lambda>x. fst x \<noteq> k) m))
                    cancelToken s)
             else s) \<and>
     snd (snd (search_quadKey S quadKey styleProvider visitor cancelToken m)) =
       Inr (foldl (\<lambda>v x. case snd x of None \<Rightarrow> v
                   | Some s \<Rightarrow> if es_hasData S s quadKey
                              then fst (es_search_tile S quadKey v cancelToken s) else v)
              visitor m)"
proof -
  note calls = search_quadKey_calls [OF assms(2), of S quadKey styleProvider visitor cancelToken]
  have "count_list (fst (snd (search_quadKey S quadKey styleProvider visitor cancelToken m)))
           (k, SearchTile quadKey) = (if es_hasData S s quadKey then 1 else 0)"
    unfolding calls [THEN conjunct1]
    by (subst count_list_concat_key [OF assms(1,3)]) (simp_all add: reports_def)
  moreover have "count_list (fst (snd (search_quadKey S quadKey styleProvider visitor cancelToken m)))
           (k, HasData quadKey) = 1"
    unfolding calls [THEN conjunct1]
    by (subst count_list_concat_key [OF assms(1,3)]) simp_all
  ultimately show ?thesis
    using search_quadKey_slot [OF assms, of S quadKey styleProvider visitor cancelToken]
      search_quadKey_effect [OF assms(2), of S quadKey styleProvider visitor cancelToken]
    by simp
qed

theorem search_quadKey_filtered_witness:
  "ordered [(''buildings'', Some [(InTile 7, 9::nat)]), (''roads'', Some [(InTile 8, 3)])] \<and>
   populated [(''buildings'', Some [(InTile 7, 9::nat)]), (''roads'', Some [(InTile 8, 3)])] \<and>
   es_hasData memStore [(InTile 7, 9)] 7 \<and> \<not> es_hasData memStore [(InTile 8, 3)] 7 \<and>
   count_list (fst (snd (search_quadKey memStore 7 () [] neverCancelled
       [(''buildings'', Some [(InTile 7, 9)]), (''roads'', Some [(InTile 8, 3)])])))
     (''buildings'', SearchTile 7) = 1 \<and>
   count_list (fst (snd (search_quadKey memStore 7 () [] neverCancelled
       [(''buildings'', Some [(InTile 7, 9)]), (''roads'', Some [(InTile 8, 3)])])))
     (''roads'', SearchTile 7) = 0 \<and>
   slot_of ''roads'' (fst (search_quadKey memStore 7 () [] neverCancelled
       [(''buildings'', Some [(InTile 7, 9)]), (''roads'', Some [(InTile 8, 3)])])) =
     Some [(InTile 8, 3)] \<and>
   snd (snd (search_quadKey memStore 7 () [] neverCancelled
       [(''buildings'', Some [(InTile 7, 9)]), (''roads'', Some [(InTile 8, 3)])])) = Inr [9]"
proof -
  let ?m = "[(''buildings'', Some [(InTile 7, 9::nat)]), (''roads'', Some [(InTile 8, 3::nat)])]"
  have h1: "ordered ?m"
    by (simp add: ordered_def)
  have h2: "populated ?m"
    by (simp add: populated_def)
  have h3: "(''buildings'', Some [(InTile 7, 9)]) \<in> set ?m"
    and h4: "(''roads'', Some [(InTile 8, 3)]) \<in> set ?m"
    by simp_all
  have d: "es_hasData memStore [(InTile 7, 9)] 7" "\<not> es_hasData memStore [(InTile 8, 3)] 7"
    by (simp_all add: memStore_def)
  from search_quadKey_filtered [OF h1 h2 h3, where S = memStore and quadKey = 7
      and styleProvider = "()" and visitor = "[]" and cancelToken = neverCancelled]
    search_quadKey_filtered [OF h1 h2 h4, where S = memStore and quadKey = 7
      and styleProvider = "()" and visitor = "[]" and cancelToken = neverCancelled]
    h1 h2 d
  show ?thesis
    by (simp add: memStore_def slot_of_def)
qed

text \<open>
  C3, counterexample. Tile ingestion of a file without elements under a key that was never
  registered returns normally and leaves an empty slot under that key. On this map the
  tile search stops at the empty slot: the store \<open>zoo\<close> has data for tile 7 and
  receives no call.
\<close>

theorem search_quadKey_null_slot:
  "add_quadKey memStore noElements ''typo'' ''empty.json'' 7 () neverCancelled
       [(''zoo'', Some [(InTile 7, 9)])] =
     ([(''typo'', None), (''zoo'', Some [(InTile 7, 9)])], [], Inr ()) \<and>
   es_hasData memStore [(InTile 7, 9)] 7 \<and>
   search_quadKey memStore 7 () [] neverCancelled
       [(''typo'', None), (''zoo'', Some [(InTile 7, 9)])] =
     ([(''typo'', None), (''zoo'', Some [(InTile 7, 9)])], [], Inl NullStore)"
  by (simp add: add_quadKey_def subscript_def slot_of_def assign_def add_functor_def
      getFormatTypeFromPath_def endsWith_def noElements_def neverCancelled_def memStore_def)

text \<open>
  C4, as amended. Over a map without empty slots, \<open>hasData\<close> returns whether some
  registered store reports data for the tile, it asks the stores in map order up to and
  including the first one that reports data and none after it, and on the empty map it
  returns false.
\<close>

theorem hasData_any:
  assumes "populated m"
  shows "snd (hasData S quadKey m) = Inr (\<exists>x \<in> set m. reports S quadKey x) \<and>
     fst (hasData S quadKey m) =
       map (\<lambda>x. (fst x, HasData quadKey))
         (take (Suc (length (takeWhile (\<lambda>x. \<not> reports S quadKey x) m))) m) \<and>
     snd (hasData S quadKey []) = Inr False"
  using assms
proof (induction m)
  case Nil
  then show ?case by simp
next
  case (Cons a m)
  then obtain k s where a: "a = (k, Some s)" and pop: "populated m"
    by (cases a) (auto simp: populated_def)
  show ?case
  proof (cases "es_hasData S s quadKey")
    case True
    then show ?thesis
      by (simp add: a reports_def)
  next
    case False
    obtain calls res where rest: "hasData S quadKey m = (calls, res)"
      by (cases "hasData S quadKey m")
    from Cons.IH [OF pop] rest
    have "res = Inr (\<exists>x \<in> set m. reports S quadKey x)"
      and "calls = map (\<lambda>x. (fst x, HasData quadKey))
         (take (Suc (length (takeWhile (\<lambda>x. \<not> reports S quadKey x) m))) m)"
      by simp_all
    with False rest show ?thesis
      by (simp add: a reports_def)
  qed
qed

theorem hasData_any_witness:
  "populated [(''buildings'', Some [(InTile 7, 9::nat)]), (''parks'', Some [(InTile 8, 3)]),
     (''roads'', Some [(InTile 8, 4)])] \<and>
   snd (hasData memStore 8 [(''buildings'', Some [(InTile 7, 9)]), (''parks'', Some [(InTile 8, 3)]),
     (''roads'', Some [(InTile 8, 4)])]) = Inr True \<and>
   fst (hasData memStore 8 [(''buildings'', Some [(InTile 7, 9)]), (''parks'', Some [(InTile 8, 3)]),
     (''roads'', Some [(InTile 8, 4)])]) = [(''buildings'', HasData 8), (''parks'', HasData 8)] \<and>
   snd (hasData memStore 5 [(''buildings'', Some [(InTile 7, 9)]), (''parks'', Some [(InTile 8, 3)]),
     (''roads'', Some [(InTile 8, 4)])]) = Inr False"
proof -
  let ?m = "[(''buildings'', Some [(InTile 7, 9::nat)]), (''parks'', Some [(InTile 8, 3::nat)]),
     (''roads'', Some [(InTile 8, 4::nat)])]"
  have h: "populated ?m"
    by (simp add: populated_def)
  have r8: "reports memStore 8 (''buildings'', Some [(InTile 7, 9)]) = False"
    "reports memStore 8 (''parks'', Some [(InTile 8, 3)]) = True"
    "reports memStore 8 (''roads'', Some [(InTile 8, 4)]) = True"
    by (simp_all add: reports_def memStore_def)
  have r5: "reports memStore 5 (''buildings'', Some [(InTile 7, 9)]) = False"
    "reports memStore 5 (''parks'', Some [(InTile 8, 3)]) = False"
    "reports memStore 5 (''roads'', Some [(InTile 8, 4)]) = False"
    by (simp_all add: reports_def memStore_def)
  note t8 = hasData_any [OF h, where S = memStore and quadKey = 8]
  note t5 = hasData_any [OF h, where S = memStore and quadKey = 5]
  have a: "snd (hasData memStore 8 ?m) = Inr True"
    using t8 [THEN conjunct1] by (simp only: list.set ball_simps bex_simps insert_iff r8 simp_thms empty_iff)
  have b: "fst (hasData memStore 8 ?m) = [(''buildings'', HasData 8), (''parks'', HasData 8)]"
    using t8 [THEN conjunct2, THEN conjunct1] by (simp add: r8)
  have c: "snd (hasData memStore 5 ?m) = Inr False"
    using t5 [THEN conjunct1] by (simp only: list.set ball_simps bex_simps insert_iff r5 simp_thms empty_iff)
  from h a b c show ?thesis
    by (simp only: simp_thms)
qed

text \<open>
  C4, counterexample. Range ingestion of a file without elements under a key that was
  never registered returns normally and leaves an empty slot under that key. On this map
  \<open>hasData\<close> stops at the empty slot with no answer, although the store \<open>zoo\<close> has
  data for tile 7.
\<close>

theorem hasData_null_slot:
  "add_range memStore noElements ''typo'' ''empty.shp'' 2 () neverCancelled
       [(''zoo'', Some [(InTile 7, 9)])] =
     ([(''typo'', None), (''zoo'', Some [(InTile 7, 9)])], [], Inr ()) \<and>
   es_hasData memStore [(InTile 7, 9)] 7 \<and>
   hasData memStore 7 [(''typo'', None), (''zoo'', Some [(InTile 7, 9)])] =
     ([], Inl NullStore)"
  by (simp add: add_range_def subscript_def slot_of_def assign_def add_functor_def
      getFormatTypeFromPath_def endsWith_def noElements_def neverCancelled_def memStore_def)








end
